theory Spec2Isabelle
  imports Main "HOL-Library.Word" "HOL-Library.AList" "HOL-Library.Sublist"
begin

section \<open>JavaScript values\<close>

text \<open>
  The upstream answers with JSON, and the code tests some fields only for truthiness
  (\<^verbatim>\<open>if (!next) break\<close>) or for being a string
  (\<^verbatim>\<open>typeof rawNext !== "string"\<close>). A field is therefore a tagged value; the
  parameter is the type of the characters of a string. \<open>JObject\<close> stands for any
  object or array, which is all the code can tell about one.
\<close>

datatype 'c jsval =
    JUndefined
  | JNull
  | JBool bool
  | JNum int
  | JStr "'c list"
  | JObject

fun truthy :: "'c jsval \<Rightarrow> bool" where
  "truthy JUndefined = False"
| "truthy JNull = False"
| "truthy (JBool b) = b"
| "truthy (JNum n) = (n \<noteq> 0)"
| "truthy (JStr s) = (s \<noteq> [])"
| "truthy JObject = True"

fun is_string :: "'c jsval \<Rightarrow> bool" where
  "is_string (JStr s) = True"
| "is_string v = False"

fun string_of :: "'c jsval \<Rightarrow> 'c list" where
  "string_of (JStr s) = s"
| "string_of v = []"

text \<open>A JavaScript string is a sequence of UTF-16 code units.\<close>

type_synonym utf16 = "16 word list"

text \<open>What an awaited call or a write can throw.\<close>

datatype error =
    Timeout
  | HttpStatus nat
  | InvalidURL
  | ReferenceError string
  | WriteFailed

section \<open>Dedupe cache (part\_002, lines 81 and 94-109)\<close>

text \<open>
  \<^verbatim>\<open>sentKeys\<close> is a \<^verbatim>\<open>Map\<close> from event key to expiry time in milliseconds: an
  association list in insertion order, read with \<^const>\<open>map_of\<close>, written with
  \<^const>\<open>AList.update\<close> and \<^const>\<open>AList.delete\<close>. \<^verbatim>\<open>Date.now()\<close> is the
  argument \<open>now\<close>.
\<close>

type_synonym sent_keys = "(string \<times> int) list"

definition DEDUPE_TTL_MS :: int where
  "DEDUPE_TTL_MS = 2 * 24 * 60 * 60 * 1000"

definition putDedupe :: "int \<Rightarrow> string \<Rightarrow> sent_keys \<Rightarrow> sent_keys" where
  "putDedupe now key sentKeys = AList.update key (now + DEDUPE_TTL_MS) sentKeys"

text \<open>
  \<^verbatim>\<open>hasDedupe\<close> answers whether the key is recorded and not expired; it deletes an
  expired record on the way. \<^verbatim>\<open>if (!exp) return false\<close> also covers a stored 0.
\<close>

definition hasDedupe :: "int \<Rightarrow> string \<Rightarrow> sent_keys \<Rightarrow> bool \<times> sent_keys" where
  "hasDedupe now key sentKeys =
     (case map_of sentKeys key of
        None \<Rightarrow> (False, sentKeys)
      | Some exp \<Rightarrow>
          if exp = 0 then (False, sentKeys)
          else if exp < now then (False, AList.delete key sentKeys)
          else (True, sentKeys))"

text \<open>The sweep that a timer runs every 60 seconds (lines 106-109).\<close>

definition sweep :: "int \<Rightarrow> sent_keys \<Rightarrow> sent_keys" where
  "sweep now sentKeys = filter (\<lambda>(k, exp). \<not> exp < now) sentKeys"

section \<open>Broadcaster (part\_002, lines 79, 83-90 and 141-151)\<close>

text \<open>
  \<^verbatim>\<open>sseClients\<close> is a \<^verbatim>\<open>Set\<close> of response objects: a list without repetition,
  in insertion order, of connection numbers. Whether \<^verbatim>\<open>res.write\<close> throws on a
  connection is the environment's, given as the predicate \<open>throws\<close>.
\<close>

definition res_write :: "(nat \<Rightarrow> bool) \<Rightarrow> nat \<Rightarrow> 'm \<Rightarrow> error + (nat \<times> 'm)" where
  "res_write throws res payload = (if throws res then Inl WriteFailed else Inr (res, payload))"

text \<open>
  The loop of \<^verbatim>\<open>sseBroadcast\<close>: \<open>out\<close> collects the writes that went through;
  the empty \<^verbatim>\<open>catch {}\<close> goes on with the next connection.
\<close>

fun sseBroadcast_loop ::
  "(nat \<Rightarrow> bool) \<Rightarrow> 'm \<Rightarrow> nat list \<Rightarrow> (nat \<times> 'm) list \<Rightarrow> error + (nat \<times> 'm) list" where
  "sseBroadcast_loop throws payload [] out = Inr out"
| "sseBroadcast_loop throws payload (res # rest) out =
     (case res_write throws res payload of
        Inl e \<Rightarrow> sseBroadcast_loop throws payload rest out
      | Inr w \<Rightarrow> sseBroadcast_loop throws payload rest (out @ [w]))"

definition sseBroadcast :: "(nat \<Rightarrow> bool) \<Rightarrow> 'm \<Rightarrow> nat list \<Rightarrow> error + (nat \<times> 'm) list" where
  "sseBroadcast throws payload sseClients = sseBroadcast_loop throws payload sseClients []"

text \<open>\<^verbatim>\<open>sseClients.add(res)\<close> on connect and \<^verbatim>\<open>sseClients.delete(res)\<close> on close.\<close>

definition sse_add :: "nat \<Rightarrow> nat list \<Rightarrow> nat list" where
  "sse_add res sseClients = (if res \<in> set sseClients then sseClients else sseClients @ [res])"

definition sse_delete :: "nat \<Rightarrow> nat list \<Rightarrow> nat list" where
  "sse_delete res sseClients = removeAll res sseClients"

section \<open>The polling server (part\_002)\<close>

subsection \<open>Data\<close>

text \<open>
  A timeline entry, as far as the cycle reads it: \<^verbatim>\<open>ev?.data?.itemId\<close> and
  \<^verbatim>\<open>ev?.date\<close>. The code tests both only for truthiness, so a missing or null
  field is the empty string. A row of the item-detail answer likewise; its rarity is
  compared with \<^verbatim>\<open>===\<close>, so a rarity that is missing or not a string is the empty
  string, equal to no label.
\<close>

record tl_event =
  ev_itemId :: string
  ev_date :: string

record detail =
  d_itemId :: string
  d_itemName :: utf16
  d_rarity :: utf16

text \<open>The object that goes to both sinks (lines 378-386).\<close>

record payload =
  p_id :: string
  p_type :: string
  p_serverId :: string
  p_characterId :: string
  p_itemName :: utf16
  p_itemId :: string
  p_time :: string

text \<open>An entry of \<^verbatim>\<open>subscriptions\<close>; an unset \<^verbatim>\<open>lastCheckedISO\<close> is the empty string.\<close>

record subscription =
  serverId :: string
  characterId :: string
  lastCheckedISO :: string
  createdAt :: string

text \<open>
  What \<^verbatim>\<open>fetchTimelineAll\<close> of part\_002 asks for: the first URL is built from the five
  arguments (and constants); every later URL is the value of the previous answer's
  \<^verbatim>\<open>next\<close> field, as it came (\<^verbatim>\<open>url = next\<close>).
\<close>

datatype request2 =
    FirstPage string string string string nat
  | Cursor "char jsval"

text \<open>
  An answer: \<^verbatim>\<open>data?.timeline\<close> (anything but an array counts as empty, line 318) and
  \<^verbatim>\<open>data?.next\<close>.
\<close>

record page2 =
  pg_timeline :: "tl_event list"
  pg_next :: "char jsval"

text \<open>
  The world outside the process. Every answer may depend on the time of the call;
  \<open>resume t\<close> is the clock when a call awaited at \<open>t\<close> returns.
\<close>

record env =
  toISOString :: "int \<Rightarrow> string"
  get_timeline :: "int \<Rightarrow> request2 \<Rightarrow> error + page2"
  get_items :: "int \<Rightarrow> string list \<Rightarrow> error + detail list"
  post_webhook :: "int \<Rightarrow> payload \<Rightarrow> error option"
  write_throws :: "int \<Rightarrow> nat \<Rightarrow> bool"
  resume :: "int \<Rightarrow> int"
  NEOPLE_API_KEY :: string
  DISCORD_WEBHOOK_URL :: string

text \<open>
  The process state: the clock (\<^verbatim>\<open>Date.now()\<close>), the two global containers, and what
  has been observed from outside: the writes that reached a connection, the webhook
  POSTs with their success, and the errors printed by \<^verbatim>\<open>console.error\<close>.
\<close>

record world =
  clock :: int
  sentKeys :: sent_keys
  sseClients :: "nat list"
  sse_log :: "(nat \<times> payload) list"
  hook_log :: "(payload \<times> bool) list"
  err_log :: "error list"

definition POLL_INTERVAL_SEC :: int where
  "POLL_INTERVAL_SEC = 15"

subsection \<open>fetchTimelineAll of part\_002 (lines 298-325)\<close>

text \<open>
  The \<^verbatim>\<open>for (let page = 0; page < 10; page++)\<close> loop. The result is the outcome (the
  exception of a failed GET, or the collected entries), the requests issued in order,
  and the clock.
\<close>

function fetch_pages2 ::
  "env \<Rightarrow> nat \<Rightarrow> int \<Rightarrow> request2 \<Rightarrow> tl_event list \<Rightarrow> request2 list
     \<Rightarrow> (error + tl_event list) \<times> request2 list \<times> int" where
  "fetch_pages2 env page t url collected reqs =
     (if page < 10 then
        (case get_timeline env t url of
           Inl e \<Rightarrow> (Inl e, reqs @ [url], resume env t)
         | Inr data \<Rightarrow>
             if \<not> truthy (pg_next data)
             then (Inr (collected @ pg_timeline data), reqs @ [url], resume env t)
             else fetch_pages2 env (page + 1) (resume env t) (Cursor (pg_next data))
                    (collected @ pg_timeline data) (reqs @ [url]))
      else (Inr collected, reqs, t))"
  by pat_completeness auto
termination
  by (relation "measure (\<lambda>(env, page, t, url, collected, reqs). 10 - page)") auto

declare fetch_pages2.simps [simp del]

definition fetchTimelineAll_part002 ::
  "env \<Rightarrow> int \<Rightarrow> string \<Rightarrow> string \<Rightarrow> string \<Rightarrow> string \<Rightarrow> nat
     \<Rightarrow> (error + tl_event list) \<times> request2 list \<times> int" where
  "fetchTimelineAll_part002 env t sid cid startISO endISO limit =
     fetch_pages2 env 0 t (FirstPage sid cid startISO endISO limit) [] []"

subsection \<open>fetchItemsDetail (lines 326-335)\<close>

text \<open>\<^verbatim>\<open>[...new Set(itemIds)]\<close>: the first occurrences, in order.\<close>

fun set_from :: "'a list \<Rightarrow> 'a list \<Rightarrow> 'a list" where
  "set_from acc [] = acc"
| "set_from acc (x # xs) = set_from (if x \<in> set acc then acc else acc @ [x]) xs"

definition new_Set :: "'a list \<Rightarrow> 'a list" where
  "new_Set xs = set_from [] xs"

definition fetchItemsDetail ::
  "env \<Rightarrow> int \<Rightarrow> string list \<Rightarrow> (error + detail list) \<times> string list list \<times> int" where
  "fetchItemsDetail env t itemIds =
     (let unique = take 15 (new_Set itemIds) in
      if length unique = 0 then (Inr [], [], t)
      else (get_items env t unique, [unique], resume env t))"

subsection \<open>notifyDiscordDrop (lines 114-136)\<close>

text \<open>The result is the exception of the awaited POST, if any, and the new state.\<close>

definition notifyDiscordDrop :: "env \<Rightarrow> payload \<Rightarrow> world \<Rightarrow> error option \<times> world" where
  "notifyDiscordDrop env p w =
     (if DISCORD_WEBHOOK_URL env = [] then (None, w)
      else
        let r = post_webhook env (clock w) p in
        (r, w\<lparr>hook_log := hook_log w @ [(p, r = None)], clock := resume env (clock w)\<rparr>))"

subsection \<open>handleOneSubscription (lines 340-403)\<close>

definition makeEventKey :: "string \<Rightarrow> string \<Rightarrow> string \<Rightarrow> string \<Rightarrow> string" where
  "makeEventKey sid cid itemId timeISO = sid @ '':'' @ cid @ '':'' @ itemId @ '':'' @ timeISO"

text \<open>The rarity label of line 368 and the default item name of line 383.\<close>

definition taecho :: utf16 where
  "taecho = [0xD0DC, 0xCD08]"

definition unnamed_item :: utf16 where
  "unnamed_item = [0xBB34, 0xBA85, 0x20, 0xC544, 0xC774, 0xD15C]"

text \<open>The test of line 368, on the rarity of the item-detail row: \<^verbatim>\<open>info.rarity === ".."\<close>.\<close>

definition is_taecho_detail :: "detail \<Rightarrow> bool" where
  "is_taecho_detail info = (d_rarity info = taecho)"

text \<open>\<^verbatim>\<open>new Map(details.map((it) => [it.itemId, it]))\<close>: a later row replaces an earlier one.\<close>

definition details_byId :: "detail list \<Rightarrow> string \<Rightarrow> detail option" where
  "details_byId details = map_of (rev (map (\<lambda>it. (d_itemId it, it)) details))"

text \<open>\<^verbatim>\<open>ev?.date || endISO\<close> (line 369) and the object of lines 378-386.\<close>

definition event_time :: "tl_event \<Rightarrow> string \<Rightarrow> string" where
  "event_time ev endISO = (if ev_date ev \<noteq> [] then ev_date ev else endISO)"

definition drop_payload :: "subscription \<Rightarrow> detail \<Rightarrow> string \<Rightarrow> string \<Rightarrow> string \<Rightarrow> payload" where
  "drop_payload sub info itemId key timeISO =
     \<lparr>p_id = key, p_type = ''ancient-drop'',
      p_serverId = serverId sub, p_characterId = characterId sub,
      p_itemName = (if d_itemName info \<noteq> [] then d_itemName info else unnamed_item),
      p_itemId = itemId, p_time = timeISO\<rparr>"

text \<open>
  The loop over the fetched entries (lines 362-392). It stops with the exception of
  \<^verbatim>\<open>notifyDiscordDrop\<close> when the POST fails, since nothing catches it inside the loop.
\<close>

fun drops_loop ::
  "env \<Rightarrow> subscription \<Rightarrow> string \<Rightarrow> (string \<Rightarrow> detail option) \<Rightarrow> tl_event list \<Rightarrow> world
     \<Rightarrow> error option \<times> world" where
  "drops_loop env sub endISO byId [] w = (None, w)"
| "drops_loop env sub endISO byId (ev # rest) w =
     (if ev_itemId ev = [] then drops_loop env sub endISO byId rest w
      else
        case byId (ev_itemId ev) of
          None \<Rightarrow> drops_loop env sub endISO byId rest w
        | Some info \<Rightarrow>
            if is_taecho_detail info then
              let timeISO = event_time ev endISO;
                  key = makeEventKey (serverId sub) (characterId sub) (ev_itemId ev) timeISO
              in
                case hasDedupe (clock w) key (sentKeys w) of
                  (True, sk) \<Rightarrow> drops_loop env sub endISO byId rest (w\<lparr>sentKeys := sk\<rparr>)
                | (False, sk) \<Rightarrow>
                    let p = drop_payload sub info (ev_itemId ev) key timeISO in
                    (case sseBroadcast (write_throws env (clock w)) p (sseClients w) of
                       Inl e \<Rightarrow> (Some e, w\<lparr>sentKeys := sk\<rparr>)
                     | Inr out \<Rightarrow>
                         (case notifyDiscordDrop env p
                                 (w\<lparr>sentKeys := sk, sse_log := sse_log w @ out\<rparr>) of
                            (Some e, w3) \<Rightarrow> (Some e, w3)
                          | (None, w3) \<Rightarrow>
                              drops_loop env sub endISO byId rest
                                (w3\<lparr>sentKeys := putDedupe (clock w3) key (sentKeys w3)\<rparr>)))
            else drops_loop env sub endISO byId rest w)"

text \<open>
  The two ends of the window (lines 341-344), and the body of the \<^verbatim>\<open>try\<close>: the
  exception that left it, if any, with the subscription and the state as they are at
  that point.
\<close>

definition cycle_endISO :: "env \<Rightarrow> world \<Rightarrow> string" where
  "cycle_endISO env w = toISOString env (clock w)"

definition cycle_startISO :: "env \<Rightarrow> subscription \<Rightarrow> world \<Rightarrow> string" where
  "cycle_startISO env sub w =
     (if lastCheckedISO sub \<noteq> [] then lastCheckedISO sub
      else toISOString env (clock w - POLL_INTERVAL_SEC * 1000))"

definition cycle_body ::
  "env \<Rightarrow> subscription \<Rightarrow> world \<Rightarrow> error option \<times> subscription \<times> world" where
  "cycle_body env sub w =
     (let endISO = cycle_endISO env w;
          startISO = cycle_startISO env sub w
      in
        case fetchTimelineAll_part002 env (clock w) (serverId sub) (characterId sub)
               startISO endISO 50 of
          (Inl e, reqs, t1) \<Rightarrow> (Some e, sub, w\<lparr>clock := t1\<rparr>)
        | (Inr events, reqs, t1) \<Rightarrow>
            if length events = 0 then (None, sub\<lparr>lastCheckedISO := endISO\<rparr>, w\<lparr>clock := t1\<rparr>)
            else
              let itemIds = filter (\<lambda>i. i \<noteq> []) (map ev_itemId events) in
              (case fetchItemsDetail env t1 itemIds of
                 (Inl e, ireqs, t2) \<Rightarrow> (Some e, sub, w\<lparr>clock := t2\<rparr>)
               | (Inr details, ireqs, t2) \<Rightarrow>
                   (case drops_loop env sub endISO (details_byId details) events
                           (w\<lparr>clock := t2\<rparr>) of
                      (Some e, w3) \<Rightarrow> (Some e, sub, w3)
                    | (None, w3) \<Rightarrow> (None, sub\<lparr>lastCheckedISO := endISO\<rparr>, w3))))"

text \<open>The \<^verbatim>\<open>catch\<close> prints the error and returns normally.\<close>

definition handleOneSubscription :: "env \<Rightarrow> subscription \<Rightarrow> world \<Rightarrow> subscription \<times> world" where
  "handleOneSubscription env sub w =
     (case cycle_body env sub w of
        (Some e, sub', w') \<Rightarrow> (sub', w'\<lparr>err_log := err_log w' @ [e]\<rparr>)
      | (None, sub', w') \<Rightarrow> (sub', w'))"

section \<open>The poll timer (part\_002, lines 543-552)\<close>

text \<open>
  The timer callback is an \<^verbatim>\<open>async\<close> function that \<^verbatim>\<open>setInterval\<close> starts every
  second, whether or not an earlier callback has returned. A callback walks the
  subscriptions in order; at the first one that is due it stores the tick's \<open>now\<close> in
  \<^verbatim>\<open>_lastRunAt\<close>, starts the cycle and is suspended at the \<^verbatim>\<open>await\<close> until the cycle
  returns, then walks on with the same \<open>now\<close>. The state keeps, for every subscription
  key, \<^verbatim>\<open>_lastRunAt\<close> (0 when unset, as \<^verbatim>\<open>sub._lastRunAt || 0\<close> reads it) and the number
  of its cycles that have started and not returned, and the suspended callbacks: the
  tick's \<open>now\<close>, the key whose cycle is awaited and the keys still to visit.
\<close>

record sub_run =
  lastRunAt :: int
  running :: nat

record sched =
  subs :: "(string \<times> sub_run) list"
  pending :: "(int \<times> string \<times> string list) list"

text \<open>The walk of the \<^verbatim>\<open>for\<close> loop from the keys \<open>ks\<close> on, up to the first \<^verbatim>\<open>await\<close>.\<close>

fun scan ::
  "int \<Rightarrow> string list \<Rightarrow> (string \<times> sub_run) list
     \<Rightarrow> (string \<times> string list) option \<times> (string \<times> sub_run) list" where
  "scan now [] ss = (None, ss)"
| "scan now (k # ks) ss =
     (case map_of ss k of
        None \<Rightarrow> scan now ks ss
      | Some sr \<Rightarrow>
          if now - lastRunAt sr < POLL_INTERVAL_SEC * 1000 - 200 then scan now ks ss
          else (Some (k, ks),
                AList.update k \<lparr>lastRunAt = now, running = running sr + 1\<rparr> ss))"

text \<open>A tick of the timer at clock \<open>now\<close>; \<open>has_key\<close> is \<^verbatim>\<open>NEOPLE_API_KEY\<close> being set.\<close>

definition timer_fires :: "bool \<Rightarrow> int \<Rightarrow> sched \<Rightarrow> sched" where
  "timer_fires has_key now s =
     (if length (subs s) = 0 \<or> \<not> has_key then s
      else
        case scan now (map fst (subs s)) (subs s) of
          (None, ss) \<Rightarrow> s
        | (Some (k, rest), ss) \<Rightarrow> s\<lparr>subs := ss, pending := pending s @ [(now, k, rest)]\<rparr>)"

text \<open>The cycle that the \<open>i\<close>-th suspended callback awaits returns; the callback walks on.\<close>

definition cycle_done :: "string \<Rightarrow> (string \<times> sub_run) list \<Rightarrow> (string \<times> sub_run) list" where
  "cycle_done k ss =
     (case map_of ss k of
        None \<Rightarrow> ss
      | Some sr \<Rightarrow> AList.update k (sr\<lparr>running := running sr - 1\<rparr>) ss)"

definition cycle_returns :: "nat \<Rightarrow> sched \<Rightarrow> sched" where
  "cycle_returns i s =
     (if i < length (pending s) then
        (case pending s ! i of
           (now, k, rest) \<Rightarrow>
             (case scan now rest (cycle_done k (subs s)) of
                (None, ss) \<Rightarrow>
                  s\<lparr>subs := ss, pending := take i (pending s) @ drop (Suc i) (pending s)\<rparr>
              | (Some (k', rest'), ss) \<Rightarrow>
                  s\<lparr>subs := ss, pending := (pending s)[i := (now, k', rest')]\<rparr>))
      else s)"

datatype sched_event = TimerFires int | CycleReturns nat

fun sched_step :: "bool \<Rightarrow> sched_event \<Rightarrow> sched \<Rightarrow> sched" where
  "sched_step has_key (TimerFires now) s = timer_fires has_key now s"
| "sched_step has_key (CycleReturns i) s = cycle_returns i s"

fun sched_run :: "bool \<Rightarrow> sched_event list \<Rightarrow> sched \<Rightarrow> sched" where
  "sched_run has_key [] s = s"
| "sched_run has_key (e # es) s = sched_run has_key es (sched_step has_key e s)"

text \<open>The clock value that the callback taking the step compares with.\<close>

fun tick_time :: "sched_event \<Rightarrow> sched \<Rightarrow> int" where
  "tick_time (TimerFires now) s = now"
| "tick_time (CycleReturns i) s = fst (pending s ! i)"

definition running_of :: "sched \<Rightarrow> string \<Rightarrow> nat" where
  "running_of s k = (case map_of (subs s) k of None \<Rightarrow> 0 | Some sr \<Rightarrow> running sr)"

definition lastRunAt_of :: "sched \<Rightarrow> string \<Rightarrow> int" where
  "lastRunAt_of s k = (case map_of (subs s) k of None \<Rightarrow> 0 | Some sr \<Rightarrow> lastRunAt sr)"

section \<open>The summary server (server.js)\<close>

subsection \<open>isAncientRarity (lines 66-68)\<close>






definition ancient :: utf16 where
  "ancient = [0x61, 0x6E, 0x63, 0x69, 0x65, 0x6E, 0x74]"






subsection \<open>URL handling used by fetchTimelineAll\<close>

text \<open>
  The fetcher calls the runtime's \<^verbatim>\<open>URL\<close> class. What it uses of it is modelled on
  strings of bytes (UTF-8), after the URL standard: the parser drops leading and
  trailing control characters and spaces and every tab and newline; the query runs from
  the first \<^verbatim>\<open>?\<close> to the first \<^verbatim>\<open>#\<close> and is percent-encoded; \<^verbatim>\<open>search\<close> is empty for
  an empty query; \<^verbatim>\<open>searchParams\<close> reads the query as a form
  (\<^verbatim>\<open>name=value\<close> joined by \<^verbatim>\<open>&\<close>, \<^verbatim>\<open>+\<close> a space, percent-escapes decoded) and
  \<^verbatim>\<open>searchParams.set\<close> writes the whole query again, form-encoded.
\<close>

definition API_HOST :: string where
  "API_HOST = ''https://api.neople.co.kr''"

definition lower_char :: "char \<Rightarrow> char" where
  "lower_char c =
     (case map_of (zip ''ABCDEFGHIJKLMNOPQRSTUVWXYZ'' ''abcdefghijklmnopqrstuvwxyz'') c of
        Some l \<Rightarrow> l
      | None \<Rightarrow> c)"

text \<open>\<^verbatim>\<open>/^https?:\/\//i.test(rawNext)\<close>\<close>

definition is_absolute :: "string \<Rightarrow> bool" where
  "is_absolute s =
     (take 7 (map lower_char s) = ''http://'' \<or> take 8 (map lower_char s) = ''https://'')"

definition c0_or_space :: "char \<Rightarrow> bool" where
  "c0_or_space c = ((of_char c :: nat) \<le> 0x20)"

definition tab_or_newline :: "char \<Rightarrow> bool" where
  "tab_or_newline c = ((of_char c :: nat) \<in> {0x09, 0x0A, 0x0D})"

definition url_clean :: "string \<Rightarrow> string" where
  "url_clean s =
     filter (\<lambda>c. \<not> tab_or_newline c)
       (rev (dropWhile c0_or_space (rev (dropWhile c0_or_space s))))"

definition hexdigit :: "nat \<Rightarrow> char" where
  "hexdigit n = ''0123456789ABCDEF'' ! n"

definition percent :: "char \<Rightarrow> string" where
  "percent c = [CHR ''%'', hexdigit ((of_char c :: nat) div 16), hexdigit ((of_char c :: nat) mod 16)]"

text \<open>The percent-encode set of the query of an \<^verbatim>\<open>https\<close> URL.\<close>

definition query_escaped :: "char \<Rightarrow> bool" where
  "query_escaped c =
     ((of_char c :: nat) \<le> 0x20 \<or> (of_char c :: nat) > 0x7E \<or> c \<in> set ''\"#<>'' \<or> (of_char c :: nat) = 0x27)"

definition query_encode :: "string \<Rightarrow> string" where
  "query_encode q = concat (map (\<lambda>c. if query_escaped c then percent c else [c]) q)"

text \<open>\<^verbatim>\<open>new URL(s).search\<close>, for a string \<open>s\<close> that the constructor accepts.\<close>

definition url_search :: "string \<Rightarrow> string" where
  "url_search s =
     (let q = dropWhile (\<lambda>c. c \<noteq> CHR ''?'') (takeWhile (\<lambda>c. c \<noteq> CHR ''#'') (url_clean s))
      in if length q \<le> 1 then [] else CHR ''?'' # query_encode (tl q))"

fun split_on :: "char \<Rightarrow> string \<Rightarrow> string list" where
  "split_on d [] = [[]]"
| "split_on d (c # cs) =
     (if c = d then [] # split_on d cs
      else case split_on d cs of
             [] \<Rightarrow> [[c]]
           | p # ps \<Rightarrow> (c # p) # ps)"

definition hexval :: "char \<Rightarrow> nat option" where
  "hexval c =
     (case map_of (zip ''0123456789abcdefABCDEF''
                    [0, 1, 2, 3, 4, 5, 6, 7, 8, 9, 10, 11, 12, 13, 14, 15, 10, 11, 12, 13, 14, 15]) c of
        None \<Rightarrow> None
      | Some n \<Rightarrow> Some n)"

fun percent_decode :: "string \<Rightarrow> string" where
  "percent_decode (c # h # l # cs) =
     (if c = CHR ''%'' then
        (case (hexval h, hexval l) of
           (Some a, Some b) \<Rightarrow> char_of (16 * a + b) # percent_decode cs
         | _ \<Rightarrow> c # percent_decode (h # l # cs))
      else c # percent_decode (h # l # cs))"
| "percent_decode cs = cs"

definition form_decode :: "string \<Rightarrow> string" where
  "form_decode x = percent_decode (map (\<lambda>c. if c = CHR ''+'' then CHR '' '' else c) x)"

text \<open>The name and value lists that \<^verbatim>\<open>searchParams\<close> holds for a \<^verbatim>\<open>search\<close> string.\<close>

definition searchParams :: "string \<Rightarrow> (string \<times> string) list" where
  "searchParams search =
     map (\<lambda>piece. (form_decode (takeWhile (\<lambda>c. c \<noteq> CHR ''='') piece),
                    form_decode (drop 1 (dropWhile (\<lambda>c. c \<noteq> CHR ''='') piece))))
       (filter (\<lambda>piece. piece \<noteq> [])
          (split_on (CHR ''&'') (if search \<noteq> [] \<and> hd search = CHR ''?'' then tl search else search)))"

definition searchParams_has :: "string \<Rightarrow> string \<Rightarrow> bool" where
  "searchParams_has search name = (name \<in> set (map fst (searchParams search)))"

definition form_plain :: "char \<Rightarrow> bool" where
  "form_plain c =
     (c \<in> set ''ABCDEFGHIJKLMNOPQRSTUVWXYZabcdefghijklmnopqrstuvwxyz0123456789*-._'')"

definition form_encode :: "string \<Rightarrow> string" where
  "form_encode x =
     concat (map (\<lambda>c. if c = CHR '' '' then ''+'' else if form_plain c then [c] else percent c) x)"

fun form_serialize :: "(string \<times> string) list \<Rightarrow> string" where
  "form_serialize [] = []"
| "form_serialize [(n, v)] = form_encode n @ ''='' @ form_encode v"
| "form_serialize ((n, v) # rest) = form_encode n @ ''='' @ form_encode v @ ''&'' @ form_serialize rest"

subsection \<open>fetchTimelineAll of server.js (lines 121-192)\<close>

text \<open>The query parameters of the first request.\<close>

record params =
  startDate :: string
  endDate :: string
  limit :: nat
  code :: string
  apikey :: string

text \<open>An answer: \<^verbatim>\<open>data?.timeline?.rows\<close> (empty unless an array) and \<^verbatim>\<open>data?.timeline?.next\<close>.\<close>

record 'r page =
  pg_rows :: "'r list"
  pg_rawNext :: "char jsval"

text \<open>
  The world outside: the answer to a GET at a given time, the clock after an awaited
  call, the string functions of the runtime that build the first request
  (\<^verbatim>\<open>encodeURIComponent\<close>, the trimming and lower-casing of \<^verbatim>\<open>normalizeServerId\<close>, the
  date arithmetic of \<^verbatim>\<open>isoSec\<close>), whether the \<^verbatim>\<open>URL\<close> constructor accepts the scheme,
  host and port of an absolute URL, and the configured key.
\<close>

record 'r env1 =
  axios_get :: "int \<Rightarrow> string \<times> params option \<Rightarrow> error + 'r page"
  resume1 :: "int \<Rightarrow> int"
  encodeURIComponent :: "string \<Rightarrow> string"
  normalizeServerId :: "string \<Rightarrow> string"
  isoSec :: "string \<Rightarrow> string"
  url_accepts :: "string \<Rightarrow> bool"
  API_KEY :: string

definition ITEM_EVENT_CODES :: string where
  "ITEM_EVENT_CODES =
     ''501,502,504,505,506,507,508,509,510,511,512,513,514,515,516,517,518,519,520,521''"

definition timeline_base :: "'r env1 \<Rightarrow> string \<Rightarrow> string \<Rightarrow> string" where
  "timeline_base env sid cid =
     API_HOST @ ''/df/servers/'' @ encodeURIComponent env (normalizeServerId env sid)
       @ ''/characters/'' @ encodeURIComponent env cid @ ''/timeline''"

text \<open>
  Lines 160-187: from the cursor to the URL of the next request. A relative cursor is
  put behind \<^verbatim>\<open>API_HOST\<close>, which the constructor always accepts. When the constructor
  throws, the \<^verbatim>\<open>catch\<close> block reads the undeclared variable \<^verbatim>\<open>err\<close>, which throws a
  \<^verbatim>\<open>ReferenceError\<close>. \<open>base\<close> is taken to be a URL that the parser leaves as it is (no
  dot segments), so that \<^verbatim>\<open>nextURL.toString()\<close> is \<open>base\<close> followed by the query.
\<close>

definition resolve_next :: "'r env1 \<Rightarrow> string \<Rightarrow> string \<Rightarrow> error + string" where
  "resolve_next env base rawNext =
     (let target =
            (if is_absolute rawNext then rawNext
             else if take 1 rawNext = ''/'' then API_HOST @ rawNext
             else API_HOST @ ''/'' @ rawNext)
      in
        if is_absolute rawNext \<and> \<not> url_accepts env rawNext then Inl (ReferenceError ''err'')
        else
          let qs = url_search target in
          if \<not> searchParams_has qs ''apikey''
          then Inr (base @ ''?'' @ form_serialize (searchParams qs @ [(''apikey'', API_KEY env)]))
          else Inr (base @ qs))"

text \<open>
  The loop of lines 147-190. The result is the outcome, the requests issued in order
  and the clock.
\<close>

function fetch_pages ::
  "'r env1 \<Rightarrow> string \<Rightarrow> nat \<Rightarrow> int \<Rightarrow> string \<times> params option \<Rightarrow> 'r list
     \<Rightarrow> (string \<times> params option) list
     \<Rightarrow> (error + 'r list) \<times> (string \<times> params option) list \<times> int" where
  "fetch_pages env base page t req out reqs =
     (if page < 10 then
        (case axios_get env t req of
           Inl e \<Rightarrow> (Inl e, reqs @ [req], resume1 env t)
         | Inr data \<Rightarrow>
             if \<not> truthy (pg_rawNext data) \<or> \<not> is_string (pg_rawNext data)
             then (Inr (out @ pg_rows data), reqs @ [req], resume1 env t)
             else
               (case resolve_next env base (string_of (pg_rawNext data)) of
                  Inl e \<Rightarrow> (Inl e, reqs @ [req], resume1 env t)
                | Inr u \<Rightarrow>
                    fetch_pages env base (page + 1) (resume1 env t) (u, None)
                      (out @ pg_rows data) (reqs @ [req])))
      else (Inr out, reqs, t))"
  by pat_completeness auto
termination
  by (relation "measure (\<lambda>(env, base, page, t, req, out, reqs). 10 - page)") auto

declare fetch_pages.simps [simp del]

definition fetchTimelineAll ::
  "'r env1 \<Rightarrow> int \<Rightarrow> string \<Rightarrow> string \<Rightarrow> string \<Rightarrow> string \<Rightarrow> nat
     \<Rightarrow> (error + 'r list) \<times> (string \<times> params option) list \<times> int" where
  "fetchTimelineAll env t sid cid startISO endISO lim =
     fetch_pages env (timeline_base env sid cid) 0 t
       (timeline_base env sid cid,
        Some \<lparr>startDate = isoSec env startISO, endDate = isoSec env endISO,
              limit = (if lim > 50 then 50 else lim), code = ITEM_EVENT_CODES,
              apikey = API_KEY env\<rparr>)
       [] []"


subsection \<open>A concrete run\<close>

text \<open>
  A subscription and an upstream for the examples: the timeline of the window holds
  three entries, X, A and Y; the item details say that X and Y are of the target rarity
  and A is not. One viewer is connected, and a webhook endpoint is configured; how the
  POST ends is the argument \<open>hook\<close>.
\<close>

definition demo_timeline :: "tl_event list" where
  "demo_timeline =
     [\<lparr>ev_itemId = ''X'', ev_date = ''2024-05-01 10:00''\<rparr>,
      \<lparr>ev_itemId = ''A'', ev_date = ''2024-05-01 10:01''\<rparr>,
      \<lparr>ev_itemId = ''Y'', ev_date = ''2024-05-01 10:02''\<rparr>]"

definition demo_detail :: "string \<Rightarrow> detail" where
  "demo_detail i =
     \<lparr>d_itemId = i, d_itemName = [],
      d_rarity = (if i = ''A'' then [0x72, 0x61, 0x72, 0x65] else taecho)\<rparr>"

definition demo_env :: "(int \<Rightarrow> payload \<Rightarrow> error option) \<Rightarrow> env" where
  "demo_env hook =
     \<lparr>toISOString = (\<lambda>t. if t < 10000 then ''T1'' else ''T2''),
      get_timeline = (\<lambda>t r. Inr \<lparr>pg_timeline = demo_timeline, pg_next = JUndefined\<rparr>),
      get_items = (\<lambda>t ids. Inr (map demo_detail ids)),
      post_webhook = hook,
      write_throws = (\<lambda>t c. False),
      resume = (\<lambda>t. t + 100),
      NEOPLE_API_KEY = ''key'',
      DISCORD_WEBHOOK_URL = ''https://discord.example/hook''\<rparr>"

definition hook_down :: "int \<Rightarrow> payload \<Rightarrow> error option" where
  "hook_down t p = Some (HttpStatus 500)"

definition hook_up :: "int \<Rightarrow> payload \<Rightarrow> error option" where
  "hook_up t p = None"

definition demo_sub :: subscription where
  "demo_sub = \<lparr>serverId = ''cain'', characterId = ''abc'', lastCheckedISO = ''T0'', createdAt = ''T0''\<rparr>"

definition demo_world :: world where
  "demo_world =
     \<lparr>clock = 1000, sentKeys = [], sseClients = [1], sse_log = [], hook_log = [], err_log = []\<rparr>"

text \<open>Two cycles of the same subscription, the second when the clock shows \<open>t\<close>.\<close>

definition two_cycles :: "env \<Rightarrow> subscription \<Rightarrow> world \<Rightarrow> int \<Rightarrow> subscription \<times> world" where
  "two_cycles env sub w t =
     (case handleOneSubscription env sub w of
        (sub1, w1) \<Rightarrow> handleOneSubscription env sub1 (w1\<lparr>clock := t\<rparr>))"

text \<open>What a log shows: who got which event, and which event was posted with what success.\<close>

definition sse_ids :: "world \<Rightarrow> (nat \<times> string) list" where
  "sse_ids w = map (\<lambda>x. (fst x, p_id (snd x))) (sse_log w)"

definition hook_ids :: "world \<Rightarrow> (string \<times> bool) list" where
  "hook_ids w = map (\<lambda>x. (p_id (fst x), snd x)) (hook_log w)"




subsection \<open>Reading a trace of requests\<close>



text \<open>
  An upstream for server.js that answers every request with one row and the same
  relative cursor, and one whose second page carries a number as cursor.
\<close>

definition endless_env :: "nat env1" where
  "endless_env =
     \<lparr>axios_get = (\<lambda>t req. Inr \<lparr>pg_rows = [7], pg_rawNext = JStr ''/df/more?next=abc''\<rparr>),
      resume1 = (\<lambda>t. t + 100),
      encodeURIComponent = (\<lambda>s. s),
      normalizeServerId = (\<lambda>s. s),
      isoSec = (\<lambda>s. s),
      url_accepts = (\<lambda>s. True),
      API_KEY = ''K3Y''\<rparr>"



text \<open>The rows of the answer to a request sent at a given time (none when it fails).\<close>

definition rows_at :: "'r env1 \<Rightarrow> int \<Rightarrow> string \<times> params option \<Rightarrow> 'r list" where
  "rows_at env t req = (case axios_get env t req of Inl e \<Rightarrow> [] | Inr data \<Rightarrow> pg_rows data)"



text \<open>Schedulers with one and with two subscriptions that have never run.\<close>

definition one_sub :: sched where
  "one_sub = \<lparr>subs = [(''cain:abc'', \<lparr>lastRunAt = 0, running = 0\<rparr>)], pending = []\<rparr>"

definition two_subs :: sched where
  "two_subs =
     \<lparr>subs = [(''cain:abc'', \<lparr>lastRunAt = 0, running = 0\<rparr>),
              (''cain:def'', \<lparr>lastRunAt = 0, running = 0\<rparr>)],
      pending = []\<rparr>"

text \<open>
  Upstreams whose first page carries a relative cursor without the key, and whose second
  page carries none: one for server.js, one for part\_002.
\<close>

definition relative_cursor_env :: "nat env1" where
  "relative_cursor_env =
     endless_env
       \<lparr>axios_get :=
          (\<lambda>t req. if snd req \<noteq> None
                    then Inr \<lparr>pg_rows = [1, 2],
                              pg_rawNext = JStr ''/df/servers/cain/characters/abc/timeline?next=p2''\<rparr>
                    else Inr \<lparr>pg_rows = [3], pg_rawNext = JNull\<rparr>)\<rparr>"

definition relative_cursor_env2 :: env where
  "relative_cursor_env2 =
     (demo_env hook_up)
       \<lparr>get_timeline :=
          (\<lambda>t r. case r of
                    FirstPage sid cid startISO endISO lim \<Rightarrow>
                      Inr \<lparr>pg_timeline = [\<lparr>ev_itemId = ''X'', ev_date = ''D1''\<rparr>],
                           pg_next = JStr ''/df/servers/cain/characters/abc/timeline?next=p2''\<rparr>
                  | Cursor c \<Rightarrow>
                      Inr \<lparr>pg_timeline = [\<lparr>ev_itemId = ''Y'', ev_date = ''D2''\<rparr>],
                           pg_next = JNull\<rparr>)\<rparr>"

section \<open>Properties of the dedupe cache\<close>

lemma map_of_putDedupe: "map_of (putDedupe t0 key sk) key = Some (t0 + DEDUPE_TTL_MS)"
  by (simp add: putDedupe_def update_conv')

lemma hasDedupe_seen:
  "fst (hasDedupe now key sk) =
     (case map_of sk key of None \<Rightarrow> False | Some exp \<Rightarrow> exp \<noteq> 0 \<and> now \<le> exp)"
  by (auto simp: hasDedupe_def split: option.split)

lemma hasDedupe_keeps_unseen:
  "\<not> fst (hasDedupe now key sk) \<Longrightarrow> now \<le> now'
   \<Longrightarrow> \<not> fst (hasDedupe now' key (snd (hasDedupe now key sk)))"
  by (auto simp: hasDedupe_def delete_conv' split: option.splits if_splits)

text \<open>The periodic sweep removes the records that have expired, and only those.\<close>

lemma sweep_removes_expired:
  "distinct (map fst sk)
   \<Longrightarrow> map_of (sweep now sk) key
        = (case map_of sk key of
             None \<Rightarrow> None
           | Some exp \<Rightarrow> if exp < now then None else Some exp)"
proof (induction sk)
  case Nil
  show ?case by (simp add: sweep_def)
next
  case (Cons kv sk)
  obtain k exp where kv: "kv = (k, exp)"
    by (cases kv) auto
  have rest: "map_of (sweep now sk) key
        = (case map_of sk key of
             None \<Rightarrow> None
           | Some exp \<Rightarrow> if exp < now then None else Some exp)"
    using Cons by simp
  have fresh: "map_of sk k = None"
    using Cons.prems kv by (simp add: map_of_eq_None_iff)
  show ?case
    using rest fresh kv by (auto simp: sweep_def split: option.splits)
qed

text \<open>
  Claim C8, as the code has it. The lookup \<^const>\<open>hasDedupe\<close> answers that a key was
  sent exactly when the cache holds a record for it that is not 0 and not before
  \<open>now\<close>; delivery goes ahead on the opposite answer. The lookup reserves nothing: after
  an answer "not sent" every later lookup answers "not sent" again, until
  \<^const>\<open>putDedupe\<close> is called, which the cycle does after both sinks. \<^const>\<open>putDedupe\<close>
  at time \<open>t0\<close> stores the expiry \<open>t0\<close> + 48 hours; from then on a lookup up to the
  expiry answers "sent" and leaves the cache as it is, and a lookup after the expiry
  answers "not sent" and deletes the record.
\<close>

theorem dedupe_lookup_and_reserve:
  "DEDUPE_TTL_MS = 48 * 60 * 60 * 1000
   \<and> fst (hasDedupe now key sk) =
       (case map_of sk key of None \<Rightarrow> False | Some exp \<Rightarrow> exp \<noteq> 0 \<and> now \<le> exp)
   \<and> (\<not> fst (hasDedupe now key sk) \<and> now \<le> now'
        \<longrightarrow> \<not> fst (hasDedupe now' key (snd (hasDedupe now key sk))))
   \<and> map_of (putDedupe t0 key sk) key = Some (t0 + DEDUPE_TTL_MS)
   \<and> (t0 + DEDUPE_TTL_MS \<noteq> 0 \<and> now \<le> t0 + DEDUPE_TTL_MS \<longrightarrow>
        hasDedupe now key (putDedupe t0 key sk) = (True, putDedupe t0 key sk))
   \<and> (t0 + DEDUPE_TTL_MS < now \<longrightarrow>
        fst (hasDedupe now key (putDedupe t0 key sk)) = False
        \<and> map_of (snd (hasDedupe now key (putDedupe t0 key sk))) key
            = (if t0 + DEDUPE_TTL_MS = 0 then Some 0 else None))"
proof -
  have ttl: "DEDUPE_TTL_MS = 48 * 60 * 60 * 1000"
    by (simp add: DEDUPE_TTL_MS_def)
  have stored: "map_of (putDedupe t0 key sk) key = Some (t0 + DEDUPE_TTL_MS)"
    by (rule map_of_putDedupe)
  have live: "hasDedupe now key (putDedupe t0 key sk) = (True, putDedupe t0 key sk)"
    if "t0 + DEDUPE_TTL_MS \<noteq> 0" "now \<le> t0 + DEDUPE_TTL_MS"
    using that stored by (simp add: hasDedupe_def)
  have gone: "fst (hasDedupe now key (putDedupe t0 key sk)) = False
        \<and> map_of (snd (hasDedupe now key (putDedupe t0 key sk))) key
            = (if t0 + DEDUPE_TTL_MS = 0 then Some 0 else None)"
    if "t0 + DEDUPE_TTL_MS < now"
    using that stored by (simp add: hasDedupe_def delete_conv')
  show ?thesis
    using ttl stored live gone hasDedupe_seen [of now key sk]
      hasDedupe_keeps_unseen [of now key sk now']
    by blast
qed

theorem dedupe_lookup_and_reserve_witness:
  "fst (hasDedupe 2000 ''k'' []) = False
   \<and> fst (hasDedupe 3000 ''k'' (snd (hasDedupe 2000 ''k'' []))) = False
   \<and> putDedupe 1000 ''k'' [] = [(''k'', 172801000)]
   \<and> hasDedupe 172801000 ''k'' (putDedupe 1000 ''k'' []) = (True, [(''k'', 172801000)])
   \<and> hasDedupe 172801001 ''k'' (putDedupe 1000 ''k'' []) = (False, [])"
proof -
  have p: "putDedupe 1000 ''k'' [] = [(''k'', 172801000)]"
    by (simp add: putDedupe_def DEDUPE_TTL_MS_def)
  have e: "hasDedupe 172801001 ''k'' [(''k'', 172801000)] = (False, [])"
    by (simp add: hasDedupe_def AList.delete_eq)
  show ?thesis
    using dedupe_lookup_and_reserve [of 2000 "''k''" "[]" 3000 1000]
      dedupe_lookup_and_reserve [of 172801000 "''k''" "[]" 172801000 1000] p e
    by (simp add: DEDUPE_TTL_MS_def)
qed

text \<open>
  Against C8 as stated: the check does not reserve. Two lookups of a fresh key, one
  second apart, both answer "not sent", and the cache stays empty.
\<close>

theorem dedupe_check_reserves_nothing:
  "hasDedupe 1000 ''k'' [] = (False, [])
   \<and> hasDedupe 2000 ''k'' (snd (hasDedupe 1000 ''k'' [])) = (False, [])"
  by (simp add: hasDedupe_def)

section \<open>Properties of the broadcaster\<close>

lemma sseBroadcast_loop_eq:
  "sseBroadcast_loop throws p cs out =
     Inr (out @ map (\<lambda>c. (c, p)) (filter (\<lambda>c. \<not> throws c) cs))"
  by (induction cs arbitrary: out) (simp_all add: res_write_def)

lemma sseBroadcast_eq:
  "sseBroadcast throws p cs = Inr (map (\<lambda>c. (c, p)) (filter (\<lambda>c. \<not> throws c) cs))"
  by (simp add: sseBroadcast_def sseBroadcast_loop_eq)

text \<open>
  Claim C9. A publish never raises: it returns the writes that went through, one for
  every connection whose write does not throw, in order, whatever the other connections
  do. After the close signal of connection \<open>gone\<close> has removed it from the set, a second
  publish writes to every remaining connection whose write does not throw, and never to
  \<open>gone\<close>.
\<close>

theorem broadcast_isolates_failures:
  "sseBroadcast throws p cs = Inr (map (\<lambda>c. (c, p)) (filter (\<lambda>c. \<not> throws c) cs))
   \<and> (\<forall>c \<in> set cs. \<not> throws c \<longrightarrow>
         (\<exists>out. sseBroadcast throws p cs = Inr out \<and> (c, p) \<in> set out))
   \<and> (\<exists>out2. sseBroadcast throws2 p2 (sse_delete gone cs) = Inr out2
         \<and> (\<forall>c \<in> set cs. c \<noteq> gone \<and> \<not> throws2 c \<longrightarrow> (c, p2) \<in> set out2)
         \<and> (\<forall>q. (gone, q) \<notin> set out2))"
  by (auto simp: sseBroadcast_eq sse_delete_def)

theorem broadcast_isolates_failures_witness:
  "sseBroadcast (\<lambda>c. c = 2) ''first'' [1, 2, 3] = Inr [(1, ''first''), (3, ''first'')]
   \<and> sseBroadcast (\<lambda>c. False) ''second'' (sse_delete 3 [1, 2, 3])
       = Inr [(1, ''second''), (2, ''second'')]"
  using broadcast_isolates_failures [of "\<lambda>c. c = 2" "''first''" "[1, 2, 3]" "\<lambda>c. False" "''second''" 3]
  by (simp add: sseBroadcast_eq sse_delete_def)

section \<open>Properties of the polling cycle\<close>








subsection \<open>The batch of item details\<close>

lemma set_set_from: "set (set_from acc xs) = set acc \<union> set xs"
  by (induction xs arbitrary: acc) auto












subsection \<open>A webhook that fails\<close>

text \<open>
  With a webhook that answers, the concrete run delivers X and Y once each, records
  both and moves the last-checked time; a second cycle fifteen seconds later delivers
  nothing more.
\<close>

lemma working_webhook_run:
  "(case two_cycles (demo_env hook_up) demo_sub demo_world 16000 of
      (sub2, w2) \<Rightarrow>
        sse_ids w2 = [(1, ''cain:abc:X:2024-05-01 10:00''), (1, ''cain:abc:Y:2024-05-01 10:02'')]
        \<and> hook_ids w2
            = [(''cain:abc:X:2024-05-01 10:00'', True), (''cain:abc:Y:2024-05-01 10:02'', True)]
        \<and> lastCheckedISO sub2 = ''T2'' \<and> err_log w2 = [])"
  by code_simp

text \<open>
  The notifier makes one POST attempt when an endpoint is configured and none
  otherwise; it keeps no queue and does not try again.
\<close>

lemma notify_attempts_once:
  "hook_log (snd (notifyDiscordDrop env p w))
     = (if DISCORD_WEBHOOK_URL env = [] then hook_log w
        else hook_log w @ [(p, post_webhook env (clock w) p = None)])"
  by (simp add: notifyDiscordDrop_def Let_def)

text \<open>
  Claim C6 at a failing input: the webhook is configured and its POST fails with
  status 500. The exception of the POST for X leaves the loop: Y, which is of the
  target rarity too, is neither written nor posted, X is not recorded as sent, the
  last-checked time stays, and the error appears on the error output. The POST itself
  is attempted once.
\<close>

theorem failing_webhook_aborts_cycle:
  "(case handleOneSubscription (demo_env hook_down) demo_sub demo_world of
      (sub1, w1) \<Rightarrow>
        sse_ids w1 = [(1, ''cain:abc:X:2024-05-01 10:00'')]
        \<and> hook_ids w1 = [(''cain:abc:X:2024-05-01 10:00'', False)]
        \<and> sentKeys w1 = []
        \<and> lastCheckedISO sub1 = ''T0''
        \<and> err_log w1 = [HttpStatus 500])"
  by code_simp

text \<open>
  Claim C1 at the same failing input, two cycles fifteen seconds apart: the event with
  the key of X reaches the connected viewer in the first cycle and again in the second,
  well inside the 48 hours.
\<close>

theorem failing_webhook_redelivers:
  "(case two_cycles (demo_env hook_down) demo_sub demo_world 16000 of
      (sub2, w2) \<Rightarrow>
        sse_ids w2 = [(1, ''cain:abc:X:2024-05-01 10:00''), (1, ''cain:abc:X:2024-05-01 10:00'')]
        \<and> hook_ids w2
            = [(''cain:abc:X:2024-05-01 10:00'', False), (''cain:abc:X:2024-05-01 10:00'', False)]
        \<and> clock w2 < 1000 + DEDUPE_TTL_MS)"
  by code_simp

section \<open>Properties of the pagination loops\<close>





section \<open>Properties of the cursor handling\<close>

subsection \<open>server.js puts the key on every request it follows\<close>

lemma split_on_not_Nil: "split_on d xs \<noteq> []"
  by (induction xs) (auto split: list.splits)

lemma split_on_append:
  "split_on d (xs @ d # ys) = split_on d xs @ split_on d ys"
proof (induction xs)
  case Nil
  show ?case by simp
next
  case (Cons c cs)
  show ?case
  proof (cases "c = d")
    case True
    then show ?thesis using Cons by simp
  next
    case False
    obtain p ps where s: "split_on d cs = p # ps"
      using split_on_not_Nil [of d cs] by (cases "split_on d cs") auto
    show ?thesis
      using False Cons s by simp
  qed
qed

lemma split_on_plain: "d \<notin> set ys \<Longrightarrow> split_on d ys = [ys]"
  by (induction ys) auto

lemma hexdigit_plain: "n < 16 \<Longrightarrow> hexdigit n \<in> set ''0123456789ABCDEF''"
  unfolding hexdigit_def by (rule nth_mem) simp

lemma percent_chars: "set (percent c) \<subseteq> set ''%0123456789ABCDEF''"
proof -
  have "(of_char c :: nat) < 256"
    by (rule nat_of_char_less_256)
  then have "(of_char c :: nat) div 16 < 16" "(of_char c :: nat) mod 16 < 16"
    by arith+
  then show ?thesis
    using hexdigit_plain [of "(of_char c :: nat) div 16"]
      hexdigit_plain [of "(of_char c :: nat) mod 16"]
    by (simp add: percent_def)
qed

lemma percent_safe: "d \<in> set (percent c) \<Longrightarrow> d \<noteq> CHR ''&'' \<and> d \<noteq> CHR ''=''"
  using percent_chars [of c] by auto

lemma form_plain_safe: "form_plain c \<Longrightarrow> c \<noteq> CHR ''&'' \<and> c \<noteq> CHR ''=''"
  by (auto simp: form_plain_def)

lemma form_encode_safe:
  "d \<in> set (form_encode x) \<Longrightarrow> d \<noteq> CHR ''&'' \<and> d \<noteq> CHR ''=''"
proof (induction x)
  case Nil
  then show ?case by (simp add: form_encode_def)
next
  case (Cons c cs)
  have "form_encode (c # cs)
          = (if c = CHR '' '' then ''+'' else if form_plain c then [c] else percent c)
            @ form_encode cs"
    by (simp add: form_encode_def)
  then consider "d = CHR ''+''" | "d = c \<and> form_plain c" | "d \<in> set (percent c)"
    | "d \<in> set (form_encode cs)"
    using Cons.prems by (auto split: if_splits)
  then show ?case
  proof cases
    case 1
    then show ?thesis by simp
  next
    case 2
    then show ?thesis using form_plain_safe by blast
  next
    case 3
    then show ?thesis by (rule percent_safe)
  next
    case 4
    then show ?thesis by (rule Cons.IH)
  qed
qed

lemma form_encode_no_amp: "CHR ''&'' \<notin> set (form_encode x)"
  using form_encode_safe [of "CHR ''&''" x] by blast

lemma form_encode_no_eq: "CHR ''='' \<notin> set (form_encode x)"
  using form_encode_safe [of "CHR ''=''" x] by blast

lemma form_serialize_snoc:
  "form_serialize (ps @ [(n, v)])
     = (if ps = [] then form_encode n @ ''='' @ form_encode v
        else form_serialize ps @ CHR ''&'' # (form_encode n @ ''='' @ form_encode v))"
proof (induction ps rule: form_serialize.induct)
  case 1
  show ?case by simp
next
  case (2 n' v')
  show ?case by simp
next
  case (3 n' v' q qs)
  then show ?case
    by (cases q) simp
qed

lemma last_piece:
  "form_encode n @ ''='' @ form_encode v
     \<in> set (split_on (CHR ''&'') (form_serialize (ps @ [(n, v)])))"
proof -
  have plain: "CHR ''&'' \<notin> set (form_encode n @ ''='' @ form_encode v)"
    using form_encode_no_amp by simp
  show ?thesis
  proof (cases "ps = []")
    case True
    then show ?thesis
      using split_on_plain [OF plain] by (simp add: form_serialize_snoc)
  next
    case False
    then show ?thesis
      using split_on_plain [OF plain]
      by (simp add: form_serialize_snoc split_on_append)
  qed
qed

lemma set_key_has_key:
  "searchParams_has (CHR ''?'' # form_serialize (ps @ [(''apikey'', k)])) ''apikey''"
proof -
  let ?piece = "form_encode ''apikey'' @ ''='' @ form_encode k"
  have enc: "form_encode ''apikey'' = ''apikey''"
    by (simp add: form_encode_def form_plain_def)
  have name: "takeWhile (\<lambda>c. c \<noteq> CHR ''='') ?piece = ''apikey''"
    by (simp add: enc)
  have dec: "form_decode ''apikey'' = ''apikey''"
    by (simp add: form_decode_def)
  have "?piece \<in> set (filter (\<lambda>piece. piece \<noteq> [])
                         (split_on (CHR ''&'') (form_serialize (ps @ [(''apikey'', k)]))))"
    using last_piece [of "''apikey''" k ps] by (simp add: enc)
  then have "form_decode (takeWhile (\<lambda>c. c \<noteq> CHR ''='') ?piece)
               \<in> set (map fst (searchParams (CHR ''?'' # form_serialize (ps @ [(''apikey'', k)]))))"
    unfolding searchParams_def by (force simp del: takeWhile.simps)
  then show ?thesis
    using name dec by (simp add: searchParams_has_def)
qed

text \<open>
  Whatever cursor \<^const>\<open>resolve_next\<close> accepts, the URL of the next request is the base
  path followed by a query that holds the key.
\<close>

lemma resolve_next_has_apikey:
  "resolve_next env base rawNext = Inr u
   \<Longrightarrow> \<exists>qs. u = base @ qs \<and> searchParams_has qs ''apikey''"
  using set_key_has_key
  by (auto simp: resolve_next_def Let_def split: if_splits)

text \<open>
  Every request of the loop of server.js is the first one or goes to the base path with
  a query that holds the key.
\<close>

lemma fetch_pages_follow_ups:
  "\<exists>new. fst (snd (fetch_pages env base page t req out reqs)) = reqs @ new
     \<and> (\<forall>r \<in> set new. r = req
            \<or> (\<exists>qs. r = (base @ qs, None) \<and> searchParams_has qs ''apikey''))"
proof (induction env base page t req out reqs rule: fetch_pages.induct)
  case (1 env base page t req out reqs)
  show ?case
  proof (cases "page < 10")
    case False
    then show ?thesis
      by (simp add: fetch_pages.simps [of env base page])
  next
    case page: True
    show ?thesis
    proof (cases "axios_get env t req")
      case (Inl e)
      then show ?thesis
        using page by (simp add: fetch_pages.simps [of env base page])
    next
      case (Inr data)
      show ?thesis
      proof (cases "\<not> truthy (pg_rawNext data) \<or> \<not> is_string (pg_rawNext data)")
        case True
        then show ?thesis
          using page Inr by (auto simp: fetch_pages.simps [of env base page])
      next
        case cur: False
        show ?thesis
        proof (cases "resolve_next env base (string_of (pg_rawNext data))")
          case (Inl e)
          then show ?thesis
            using page Inr cur by (auto simp: fetch_pages.simps [of env base page])
        next
          case u: (Inr u)
          obtain qs where qs: "u = base @ qs" "searchParams_has qs ''apikey''"
            using resolve_next_has_apikey [OF u] by blast
          obtain new where
            n: "fst (snd (fetch_pages env base (page + 1) (resume1 env t) (u, None)
                            (out @ pg_rows data) (reqs @ [req]))) = (reqs @ [req]) @ new"
            and f: "\<forall>r \<in> set new. r = (u, None)
                      \<or> (\<exists>qs. r = (base @ qs, None) \<and> searchParams_has qs ''apikey'')"
            using "1.IH" [OF page Inr cur u] by blast
          have eq: "fetch_pages env base page t req out reqs
                    = fetch_pages env base (page + 1) (resume1 env t) (u, None)
                        (out @ pg_rows data) (reqs @ [req])"
            using page Inr cur u by (auto simp: fetch_pages.simps [of env base page])
          have "\<forall>r \<in> set (req # new). r = req
                  \<or> (\<exists>qs. r = (base @ qs, None) \<and> searchParams_has qs ''apikey'')"
            using f qs by auto
          moreover have "fst (snd (fetch_pages env base page t req out reqs)) = reqs @ (req # new)"
            using eq n by simp
          ultimately show ?thesis
            by blast
        qed
      qed
    qed
  qed
qed

text \<open>What the loop of server.js returns is the rows of all the pages it asked for, in order.\<close>

lemma fetch_pages_rows:
  "fst (fetch_pages env base page t req out reqs) = Inr rows
   \<Longrightarrow> \<exists>new. fst (snd (fetch_pages env base page t req out reqs)) = reqs @ new
         \<and> rows = out @ concat (map (\<lambda>i. rows_at env ((resume1 env ^^ i) t) (new ! i))
                                 [0..<length new])"
proof (induction env base page t req out reqs rule: fetch_pages.induct)
  case (1 env base page t req out reqs)
  show ?case
  proof (cases "page < 10")
    case False
    then show ?thesis
      using "1.prems" by (simp add: fetch_pages.simps [of env base page])
  next
    case page: True
    show ?thesis
    proof (cases "axios_get env t req")
      case (Inl e)
      then show ?thesis
        using page "1.prems" by (simp add: fetch_pages.simps [of env base page])
    next
      case (Inr data)
      have here: "rows_at env t req = pg_rows data"
        using Inr by (simp add: rows_at_def)
      show ?thesis
      proof (cases "\<not> truthy (pg_rawNext data) \<or> \<not> is_string (pg_rawNext data)")
        case True
        then show ?thesis
          using page Inr here "1.prems"
          by (auto simp: fetch_pages.simps [of env base page])
      next
        case cur: False
        show ?thesis
        proof (cases "resolve_next env base (string_of (pg_rawNext data))")
          case (Inl e)
          then show ?thesis
            using page Inr cur "1.prems" by (auto simp: fetch_pages.simps [of env base page])
        next
          case u: (Inr u)
          have eq: "fetch_pages env base page t req out reqs
                    = fetch_pages env base (page + 1) (resume1 env t) (u, None)
                        (out @ pg_rows data) (reqs @ [req])"
            using page Inr cur u by (auto simp: fetch_pages.simps [of env base page])
          then have "fst (fetch_pages env base (page + 1) (resume1 env t) (u, None)
                            (out @ pg_rows data) (reqs @ [req])) = Inr rows"
            using "1.prems" by simp
          then obtain new where
            n: "fst (snd (fetch_pages env base (page + 1) (resume1 env t) (u, None)
                            (out @ pg_rows data) (reqs @ [req]))) = (reqs @ [req]) @ new"
            and r: "rows = (out @ pg_rows data)
                      @ concat (map (\<lambda>i. rows_at env ((resume1 env ^^ i) (resume1 env t)) (new ! i))
                                  [0..<length new])"
            using "1.IH" [OF page Inr cur u] by blast
          have shift: "map (\<lambda>i. rows_at env ((resume1 env ^^ i) t) ((req # new) ! i))
                         [0..<length (req # new)]
                       = rows_at env t req
                         # map (\<lambda>i. rows_at env ((resume1 env ^^ i) (resume1 env t)) (new ! i))
                             [0..<length new]"
            by (simp add: upt_conv_Cons map_Suc_upt [symmetric] funpow_swap1 del: upt_Suc)
          have "rows = out @ concat (map (\<lambda>i. rows_at env ((resume1 env ^^ i) t) ((req # new) ! i))
                                      [0..<length (req # new)])"
            using r here by (simp only: shift) simp
          moreover have "fst (snd (fetch_pages env base page t req out reqs)) = reqs @ (req # new)"
            using eq n by simp
          ultimately show ?thesis
            by blast
        qed
      qed
    qed
  qed
qed

text \<open>
  Claim C3 at a failing input, with the sibling beside it. The first page carries the
  relative cursor \<^verbatim>\<open>/df/servers/cain/characters/abc/timeline?next=p2\<close>, without host
  and without key. The fetcher of part\_002, which the polling cycle calls, sends the
  cursor as it came as the next URL. The fetcher of server.js sends the base path with
  the cursor's query and the key, and returns the rows of both pages.
\<close>

theorem raw_cursor_followed:
  "fst (snd (fetchTimelineAll_part002 relative_cursor_env2 0 ''cain'' ''abc'' ''S'' ''E'' 50))
     = [FirstPage ''cain'' ''abc'' ''S'' ''E'' 50,
        Cursor (JStr ''/df/servers/cain/characters/abc/timeline?next=p2'')]
   \<and> map fst (fst (snd (fetchTimelineAll relative_cursor_env 0 ''cain'' ''abc'' ''S'' ''E'' 50)))
     = [''https://api.neople.co.kr/df/servers/cain/characters/abc/timeline'',
        ''https://api.neople.co.kr/df/servers/cain/characters/abc/timeline?next=p2&apikey=K3Y'']
   \<and> fst (fetchTimelineAll relative_cursor_env 0 ''cain'' ''abc'' ''S'' ''E'' 50) = Inr [1, 2, 3]"
  by code_simp

section \<open>Properties of the rarity test\<close>






















section \<open>Properties of the poll timer\<close>

lemma scan_None: "scan now ks ss = (None, ss') \<Longrightarrow> ss' = ss"
  by (induction ks) (auto split: option.splits if_splits)

lemma scan_Some:
  "scan now ks ss = (Some (k, rest), ss')
   \<Longrightarrow> \<exists>sr. map_of ss k = Some sr
          \<and> POLL_INTERVAL_SEC * 1000 - 200 \<le> now - lastRunAt sr
          \<and> ss' = AList.update k \<lparr>lastRunAt = now, running = running sr + 1\<rparr> ss"
  by (induction ks) (auto split: option.splits if_splits)

lemma scan_running:
  assumes "scan now ks ss = (r, ss')"
    and "(case map_of ss k of None \<Rightarrow> 0 | Some sr \<Rightarrow> running sr)
           < (case map_of ss' k of None \<Rightarrow> 0 | Some sr \<Rightarrow> running sr)"
  shows "\<exists>sr rest. r = Some (k, rest) \<and> map_of ss k = Some sr
           \<and> POLL_INTERVAL_SEC * 1000 - 200 \<le> now - lastRunAt sr
           \<and> map_of ss' k = Some \<lparr>lastRunAt = now, running = running sr + 1\<rparr>"
proof (cases r)
  case None
  then show ?thesis
    using assms scan_None [of now ks ss ss'] by simp
next
  case (Some a)
  obtain k' rest where a: "a = (k', rest)"
    by (cases a) auto
  obtain sr where sr: "map_of ss k' = Some sr"
    "POLL_INTERVAL_SEC * 1000 - 200 \<le> now - lastRunAt sr"
    "ss' = AList.update k' \<lparr>lastRunAt = now, running = running sr + 1\<rparr> ss"
    using scan_Some [of now ks ss k' rest ss'] assms(1) Some a by auto
  have "k' = k"
    using assms(2) sr(3) by (cases "k' = k") (simp_all add: update_conv')
  then show ?thesis
    using Some a sr by (simp add: update_conv')
qed

lemma cycle_done_running:
  "(case map_of (cycle_done k0 ss) k of None \<Rightarrow> 0 | Some sr \<Rightarrow> running sr)
     \<le> (case map_of ss k of None \<Rightarrow> 0 | Some sr \<Rightarrow> running sr)"
  by (auto simp: cycle_done_def update_conv' split: option.splits)

lemma cycle_done_lastRunAt:
  "map_of (cycle_done k0 ss) k = Some sr
   \<Longrightarrow> \<exists>sr0. map_of ss k = Some sr0 \<and> lastRunAt sr0 = lastRunAt sr
            \<and> running sr \<le> running sr0"
  by (auto simp: cycle_done_def update_conv' split: option.splits if_splits)

text \<open>
  Claim C7, as the code has it. A step of the timer (a tick, or the return of an
  awaited cycle that lets a callback walk on) raises the number of running cycles of a
  key by at most one, and only when the clock value of the callback's tick is at least
  15 seconds minus 200 milliseconds after the start recorded for that key; the step
  records the tick as the new start. Nothing in the step asks whether the earlier cycle
  of the key has returned.
\<close>

theorem cycle_starts_when_due:
  "running_of s k < running_of (sched_step has_key e s) k
   \<longrightarrow> POLL_INTERVAL_SEC * 1000 - 200 \<le> tick_time e s - lastRunAt_of s k
       \<and> POLL_INTERVAL_SEC * 1000 - 200 = 14800
       \<and> lastRunAt_of (sched_step has_key e s) k = tick_time e s
       \<and> running_of (sched_step has_key e s) k \<le> running_of s k + 1"
proof
  assume up: "running_of s k < running_of (sched_step has_key e s) k"
  have c: "POLL_INTERVAL_SEC * 1000 - 200 = 14800"
    by (simp add: POLL_INTERVAL_SEC_def)
  show "POLL_INTERVAL_SEC * 1000 - 200 \<le> tick_time e s - lastRunAt_of s k
       \<and> POLL_INTERVAL_SEC * 1000 - 200 = 14800
       \<and> lastRunAt_of (sched_step has_key e s) k = tick_time e s
       \<and> running_of (sched_step has_key e s) k \<le> running_of s k + 1"
  proof (cases e)
    case (TimerFires now)
    obtain r ss where sc: "scan now (map fst (subs s)) (subs s) = (r, ss)"
      by (cases "scan now (map fst (subs s)) (subs s)") auto
    have changed: "sched_step has_key e s \<noteq> s"
      using up by auto
    have after: "subs (sched_step has_key e s) = ss"
      using sc changed TimerFires
      by (auto simp: timer_fires_def split: option.splits if_splits)
    obtain sr rest where "r = Some (k, rest)" "map_of (subs s) k = Some sr"
      "POLL_INTERVAL_SEC * 1000 - 200 \<le> now - lastRunAt sr"
      "map_of ss k = Some \<lparr>lastRunAt = now, running = running sr + 1\<rparr>"
      using scan_running [OF sc, of k] up after
      by (auto simp: running_of_def)
    then show ?thesis
      using after TimerFires c by (simp add: running_of_def lastRunAt_of_def)
  next
    case (CycleReturns i)
    have changed: "sched_step has_key e s \<noteq> s"
      using up by auto
    have i: "i < length (pending s)"
    proof (rule ccontr)
      assume "\<not> i < length (pending s)"
      then have "sched_step has_key e s = s"
        using CycleReturns by (simp add: cycle_returns_def)
      then show False
        using changed by simp
    qed
    obtain now k0 rest0 where p: "pending s ! i = (now, k0, rest0)"
      by (cases "pending s ! i") auto
    obtain r ss where sc: "scan now rest0 (cycle_done k0 (subs s)) = (r, ss)"
      by (cases "scan now rest0 (cycle_done k0 (subs s))") auto
    have after: "subs (sched_step has_key e s) = ss"
      using sc i p CycleReturns
      by (auto simp: cycle_returns_def split: option.splits)
    have "(case map_of (cycle_done k0 (subs s)) k of None \<Rightarrow> 0 | Some sr \<Rightarrow> running sr)
            < (case map_of ss k of None \<Rightarrow> 0 | Some sr \<Rightarrow> running sr)"
      using up after cycle_done_running [of k0 "subs s" k]
      by (simp add: running_of_def)
    then obtain sr rest where s: "r = Some (k, rest)"
      "map_of (cycle_done k0 (subs s)) k = Some sr"
      "POLL_INTERVAL_SEC * 1000 - 200 \<le> now - lastRunAt sr"
      "map_of ss k = Some \<lparr>lastRunAt = now, running = running sr + 1\<rparr>"
      using scan_running [OF sc, of k] by blast
    obtain sr0 where sr0: "map_of (subs s) k = Some sr0" "lastRunAt sr0 = lastRunAt sr"
      "running sr \<le> running sr0"
      using cycle_done_lastRunAt [OF s(2)] by blast
    show ?thesis
      using after CycleReturns c p s sr0 by (simp add: running_of_def lastRunAt_of_def)
  qed
qed

theorem cycle_starts_when_due_witness:
  "running_of one_sub ''cain:abc'' = 0
   \<and> running_of (sched_step True (TimerFires 15000) one_sub) ''cain:abc'' = 1
   \<and> 14800 \<le> tick_time (TimerFires 15000) one_sub - lastRunAt_of one_sub ''cain:abc''
   \<and> lastRunAt_of (sched_step True (TimerFires 15000) one_sub) ''cain:abc'' = 15000
   \<and> running_of (sched_step True (TimerFires 14000) one_sub) ''cain:abc'' = 0
   \<and> subs (sched_run True [TimerFires 15000, TimerFires 16000] two_subs)
       = [(''cain:abc'', \<lparr>lastRunAt = 15000, running = 1\<rparr>),
          (''cain:def'', \<lparr>lastRunAt = 16000, running = 1\<rparr>)]"
proof -
  have a: "running_of one_sub ''cain:abc'' = 0"
    by code_simp
  have b: "running_of (sched_step True (TimerFires 15000) one_sub) ''cain:abc'' = 1"
    by code_simp
  have c: "14800 \<le> tick_time (TimerFires 15000) one_sub - lastRunAt_of one_sub ''cain:abc''
     \<and> lastRunAt_of (sched_step True (TimerFires 15000) one_sub) ''cain:abc'' = 15000"
    using a b cycle_starts_when_due [of one_sub "''cain:abc''" True "TimerFires 15000"]
    by simp
  have d: "running_of (sched_step True (TimerFires 14000) one_sub) ''cain:abc'' = 0"
    by code_simp
  have e: "subs (sched_run True [TimerFires 15000, TimerFires 16000] two_subs)
       = [(''cain:abc'', \<lparr>lastRunAt = 15000, running = 1\<rparr>),
          (''cain:def'', \<lparr>lastRunAt = 16000, running = 1\<rparr>)]"
    by code_simp
  show ?thesis
    using a b c d e by simp
qed

text \<open>
  Against C7 as stated: with one subscription, a tick at 15 s starts a cycle, and when
  that cycle has not returned by the tick at 30 s, that tick starts a second cycle of
  the same key beside it.
\<close>

theorem cycles_of_one_key_overlap:
  "sched_run True [TimerFires 15000, TimerFires 30000] one_sub
     = \<lparr>subs = [(''cain:abc'', \<lparr>lastRunAt = 30000, running = 2\<rparr>)],
        pending = [(15000, ''cain:abc'', []), (30000, ''cain:abc'', [])]\<rparr>"
  by code_simp

end
